theory Spec2Isabelle
  imports Main "HOL-Library.Sublist"
begin

text \<open>
  A domain availability checker: for one domain it asks the DNS resolver and the WHOIS
  service, classifies both answers and merges them into a verdict (\<open>checkDomain\<close>); for a
  name and a list of TLDs it does so in windows of a few domains at a time
  (\<open>checkAlternativeTlds\<close>). The definitions follow \<open>dist/domain-checker.js\<close> function by
  function.
\<close>

section \<open>Strings\<close>

text \<open>
  A JavaScript string is a sequence of code units. The model takes the code units of the
  Latin-1 range (\<^typ>\<open>char\<close>, eight bits), which holds every character the program's own
  literals and patterns use. \<open>String.prototype.toLowerCase\<close>, \<open>trim\<close>, \<open>split(".")\<close> and
  \<open>join(".")\<close> are written out for that range.
\<close>

definition isWhiteSpace :: "char \<Rightarrow> bool" where
  \<comment> \<open>ECMAScript WhiteSpace and LineTerminator: TAB, LF, VT, FF, CR, SP, NBSP.\<close>
  "isWhiteSpace c = (of_char c \<in> {9, 10, 11, 12, 13, 32, 160 :: nat})"

definition isLineTerminator :: "char \<Rightarrow> bool" where
  "isLineTerminator c = (of_char c \<in> {10, 13 :: nat})"

definition lowerChar :: "char \<Rightarrow> char" where
  \<comment> \<open>A-Z and the Latin-1 capitals (all of 0xC0-0xDE but the multiplication sign) move up by 32.\<close>
  "lowerChar c =
     (let n = of_char c :: nat
      in if (65 \<le> n \<and> n \<le> 90) \<or> (192 \<le> n \<and> n \<le> 222 \<and> n \<noteq> 215)
         then char_of (n + 32) else c)"

definition toLowerCase :: "string \<Rightarrow> string" where
  "toLowerCase s = map lowerChar s"

definition trim :: "string \<Rightarrow> string" where
  "trim s = rev (dropWhile isWhiteSpace (rev (dropWhile isWhiteSpace s)))"

fun split_dot :: "string \<Rightarrow> string list" where
  \<comment> \<open>\<open>s.split(".")\<close>: always at least one part, one more part per dot.\<close>
  "split_dot [] = [[]]"
| "split_dot (c # cs) =
     (if c = CHR ''.'' then [] # split_dot cs
      else (case split_dot cs of [] \<Rightarrow> [[c]] | p # ps \<Rightarrow> (c # p) # ps))"

fun join_dot :: "string list \<Rightarrow> string" where
  \<comment> \<open>\<open>parts.join(".")\<close>\<close>
  "join_dot [] = []"
| "join_dot [p] = p"
| "join_dot (p # q # ps) = p @ ''.'' @ join_dot (q # ps)"

section \<open>Parsing a domain\<close>

datatype js_error = Error string

definition parseDomain :: "string \<Rightarrow> js_error + (string \<times> string)" where
  "parseDomain domain =
     (let parts = split_dot (trim (toLowerCase domain))
      in if length parts < 2
         then Inl (Error (''Invalid domain format: '' @ domain @ ''. Expected format: name.tld''))
         else Inr (join_dot (butlast parts), last parts))"

section \<open>The two probes\<close>

text \<open>
  The resolver and the WHOIS service are the environment. A probe's raw outcome is what the
  promise raced against its timer settles with: a resolution, or a rejection carrying the
  error's \<open>code\<close> (absent on most errors) and \<open>message\<close>. The timer's rejection is the
  error with no code and the message given to \<open>withTimeout\<close>. A message can be the empty
  string: the error of a connection attempt that failed on every address of the host has
  one, and the WHOIS client hands socket errors on as they are.
\<close>

datatype dns_outcome = DnsResolved | DnsRejected "string option" string

datatype whois_outcome = WhoisData string | WhoisRejected string

record probes =
  dnsResolve :: "string \<Rightarrow> dns_outcome"
  lookupAsync :: "string \<Rightarrow> whois_outcome"

record DnsResult =
  dns_exists :: bool
  dns_error :: "string option"

record WhoisResult =
  whois_available :: bool
  whois_details :: "string option"
  whois_error :: "string option"

definition checkDns :: "probes \<Rightarrow> string \<Rightarrow> DnsResult" where
  "checkDns env domain =
     (case dnsResolve env domain of
        DnsResolved \<Rightarrow> \<lparr>dns_exists = True, dns_error = None\<rparr>
      | DnsRejected code message \<Rightarrow>
          if code = Some ''ENOTFOUND'' \<or> code = Some ''ENODATA''
          then \<lparr>dns_exists = False, dns_error = None\<rparr>
          else if message = ''DNS lookup timed out''
          then \<lparr>dns_exists = False, dns_error = Some ''timeout''\<rparr>
          else \<lparr>dns_exists = False, dns_error = Some message\<rparr>)"

subsection \<open>The regular expressions of the WHOIS classifier\<close>

text \<open>
  The eighteen patterns use literal characters, \<open>\s*\<close>, \<open>.+\<close> and, in one pattern with the
  \<open>m\<close> flag, \<open>^\<close> and \<open>$\<close>. All carry the \<open>i\<close> flag and none the \<open>g\<close> flag, so \<open>test\<close> is
  stateless and asks whether a match exists anywhere in the text.
\<close>

datatype atom = Lit char | WsStar | AnyPlus | LineStart | LineEnd

definition canonicalize :: "char \<Rightarrow> nat" where
  \<comment> \<open>The code unit of the upper-case form, as the \<open>i\<close> flag compares characters; a character
      whose upper-case form is not one code unit stays itself.\<close>
  "canonicalize c =
     (let n = of_char c :: nat
      in if (97 \<le> n \<and> n \<le> 122) \<or> (224 \<le> n \<and> n \<le> 254 \<and> n \<noteq> 247) then n - 32
         else if n = 255 then 376
         else if n = 181 then 924
         else n)"

fun matchHere :: "atom list \<Rightarrow> char option \<Rightarrow> string \<Rightarrow> bool" where
  \<comment> \<open>Does the pattern match a prefix of the text? The second argument is the character
      before the current position.\<close>
  "matchHere [] prev s = True"
| "matchHere (Lit c # as) prev [] = False"
| "matchHere (Lit c # as) prev (x # xs) =
     (canonicalize x = canonicalize c \<and> matchHere as (Some x) xs)"
| "matchHere (WsStar # as) prev [] = matchHere as prev []"
| "matchHere (WsStar # as) prev (x # xs) =
     ((isWhiteSpace x \<and> matchHere (WsStar # as) (Some x) xs) \<or> matchHere as prev (x # xs))"
| "matchHere (AnyPlus # as) prev [] = False"
| "matchHere (AnyPlus # as) prev (x # xs) =
     (\<not> isLineTerminator x \<and>
      (matchHere (AnyPlus # as) (Some x) xs \<or> matchHere as (Some x) xs))"
| "matchHere (LineStart # as) prev s =
     ((case prev of None \<Rightarrow> True | Some p \<Rightarrow> isLineTerminator p) \<and> matchHere as prev s)"
| "matchHere (LineEnd # as) prev s =
     ((case s of [] \<Rightarrow> True | x # _ \<Rightarrow> isLineTerminator x) \<and> matchHere as prev s)"

fun searchFrom :: "atom list \<Rightarrow> char option \<Rightarrow> string \<Rightarrow> bool" where
  "searchFrom p prev [] = matchHere p prev []"
| "searchFrom p prev (x # xs) = (matchHere p prev (x # xs) \<or> searchFrom p (Some x) xs)"

definition test :: "atom list \<Rightarrow> string \<Rightarrow> bool" where
  \<comment> \<open>\<open>pattern.test(text)\<close>\<close>
  "test p s = searchFrom p None s"

definition lit :: "string \<Rightarrow> atom list" where
  "lit s = map Lit s"

definition availablePatterns :: "atom list list" where
  "availablePatterns =
     [lit ''no match'',
      lit ''not found'',
      lit ''no data found'',
      lit ''no entries found'',
      lit ''status:'' @ [WsStar] @ lit ''free'',
      lit ''status:'' @ [WsStar] @ lit ''available'',
      lit ''domain not found'',
      lit ''no object found'',
      lit ''nothing found'',
      [LineStart] @ lit ''% no match'' @ [LineEnd]]"

definition takenPatterns :: "atom list list" where
  "takenPatterns =
     [lit ''domain name:'' @ [WsStar, AnyPlus],
      lit ''registrar:'',
      lit ''creation date:'',
      lit ''registered on:'',
      lit ''status:'' @ [WsStar] @ lit ''active'',
      lit ''status:'' @ [WsStar] @ lit ''ok'',
      lit ''name server:'',
      lit ''registrant:'']"

definition some :: "'a list \<Rightarrow> ('a \<Rightarrow> bool) \<Rightarrow> bool" where
  \<comment> \<open>\<open>Array.prototype.some\<close>\<close>
  "some xs f = list_ex f xs"

definition checkWhois :: "probes \<Rightarrow> string \<Rightarrow> WhoisResult" where
  "checkWhois env domain =
     (case lookupAsync env domain of
        WhoisData whoisData \<Rightarrow>
          (let isAvailable = some availablePatterns (\<lambda>pattern. test pattern whoisData);
               isTaken = some takenPatterns (\<lambda>pattern. test pattern whoisData)
           in if isAvailable \<and> \<not> isTaken
              then \<lparr>whois_available = True,
                    whois_details = Some ''WHOIS shows domain is not registered'',
                    whois_error = None\<rparr>
              else if isTaken
              then \<lparr>whois_available = False,
                    whois_details = Some ''WHOIS shows domain is registered'',
                    whois_error = None\<rparr>
              else \<lparr>whois_available = False,
                    whois_details = Some ''WHOIS result ambiguous, assuming taken'',
                    whois_error = None\<rparr>)
      | WhoisRejected message \<Rightarrow>
          \<lparr>whois_available = False, whois_details = None, whois_error = Some message\<rparr>)"

section \<open>Checking one domain\<close>

datatype check_method = Dns | Whois | Both

datatype confidence_level = High | Medium | Low

record DomainCheckResult =
  domain :: string
  tld :: string
  available :: bool
  method' :: check_method
  confidence :: confidence_level
  details :: "string option"
  error :: "string option"

definition truthy :: "string option \<Rightarrow> bool" where
  \<comment> \<open>An optional string in a condition: \<open>undefined\<close> and the empty string are false.\<close>
  "truthy e = (case e of None \<Rightarrow> False | Some s \<Rightarrow> s \<noteq> [])"

definition template :: "string option \<Rightarrow> string" where
  \<comment> \<open>An optional string inside a template literal.\<close>
  "template e = (case e of None \<Rightarrow> ''undefined'' | Some s \<Rightarrow> s)"

definition checkDomain :: "probes \<Rightarrow> string \<Rightarrow> js_error + DomainCheckResult" where
  "checkDomain env domain' =
     (case parseDomain domain' of
        Inl e \<Rightarrow> Inl e
      | Inr (name, tld') \<Rightarrow>
          (let fullDomain = name @ ''.'' @ tld';
               dnsResult = checkDns env fullDomain;
               whoisResult = checkWhois env fullDomain
           in if truthy (dns_error dnsResult) \<and> truthy (whois_error whoisResult)
              then Inr \<lparr>domain = fullDomain, tld = tld', available = False, method' = Both,
                        confidence = Low,
                        details = Some ''Both DNS and WHOIS checks failed'',
                        error = Some (''DNS: '' @ template (dns_error dnsResult) @ '', WHOIS: '' @
                                      template (whois_error whoisResult))\<rparr>
              else
                (let (available', confidence', method'', details') =
                   (if \<not> truthy (dns_error dnsResult) \<and> \<not> truthy (whois_error whoisResult)
                    then
                      (if \<not> dns_exists dnsResult \<and> whois_available whoisResult
                       then (True, High, Both, Some ''No DNS records and WHOIS shows available'')
                       else if dns_exists dnsResult \<and> \<not> whois_available whoisResult
                       then (False, High, Both,
                             Some ''DNS records exist and WHOIS shows registered'')
                       else if dns_exists dnsResult
                       then (False, High, Both, Some ''DNS records exist (domain is active)'')
                       else if \<not> whois_available whoisResult
                       then (False, Medium, Both,
                             Some ''No DNS but WHOIS shows registered (domain may be parked)'')
                       else (True, Medium, Both, whois_details whoisResult))
                    else if truthy (dns_error dnsResult)
                    then (whois_available whoisResult, Medium, Whois, whois_details whoisResult)
                    else (\<not> dns_exists dnsResult,
                          if dns_exists dnsResult then High else Medium,
                          Dns,
                          Some (if dns_exists dnsResult then ''DNS records exist''
                                else ''No DNS records found (may still be registered but inactive)'')))
                 in Inr \<lparr>domain = fullDomain, tld = tld', available = available',
                          method' = method'', confidence = confidence', details = details',
                          error = None\<rparr>)))"

section \<open>Checking a name across TLDs\<close>

definition POPULAR_TLDS :: "string list" where
  "POPULAR_TLDS =
     [''com'', ''net'', ''org'', ''io'', ''co'', ''dev'', ''app'', ''ai'', ''xyz'', ''me'',
      ''info'', ''biz'', ''tech'', ''online'', ''site'', ''cloud'']"

definition COUNTRY_TLDS :: "string list" where
  "COUNTRY_TLDS =
     [''uk'', ''de'', ''fr'', ''nl'', ''es'', ''it'', ''pl'', ''ru'', ''jp'', ''cn'', ''au'',
      ''ca'', ''us'', ''in'', ''br'']"

definition TECH_TLDS :: "string list" where
  "TECH_TLDS =
     [''io'', ''dev'', ''app'', ''ai'', ''tech'', ''cloud'', ''software'', ''systems'',
      ''digital'', ''code'']"

definition BATCH_DELAY_MS :: nat where
  "BATCH_DELAY_MS = 1500"

definition DEFAULT_CONCURRENCY :: int where
  "DEFAULT_CONCURRENCY = 3"

record AlternativeTldResult =
  originalDomain :: string
  results :: "DomainCheckResult list"

record batch_options =
  concurrency :: "int option"
  batchDelay :: "nat option"

text \<open>
  What a call does besides returning: the windows of domains it hands to \<open>checkDomain\<close>
  together, and the pauses, in the order they happen.
\<close>

datatype event = Window "string list" | Sleep nat

definition slice :: "'a list \<Rightarrow> int \<Rightarrow> int \<Rightarrow> 'a list" where
  \<comment> \<open>\<open>Array.prototype.slice(start, end)\<close> on integers: a negative index counts from the end.\<close>
  "slice xs start end' =
     (let len = int (length xs);
          k = (if start < 0 then max (len + start) 0 else min start len);
          final = (if end' < 0 then max (len + end') 0 else min end' len)
      in take (nat (final - k)) (drop (nat k) xs))"

fun promise_all :: "('e + 'a) list \<Rightarrow> 'e + 'a list" where
  \<comment> \<open>\<open>Promise.all\<close> over settled promises: the values in order, or the first rejection.\<close>
  "promise_all [] = Inr []"
| "promise_all (p # ps) =
     (case p of
        Inl e \<Rightarrow> Inl e
      | Inr v \<Rightarrow> (case promise_all ps of Inl e \<Rightarrow> Inl e | Inr vs \<Rightarrow> Inr (v # vs)))"

text \<open>
  The \<open>for\<close> loop of \<open>checkAlternativeTlds\<close>, with its variables \<open>i\<close> and \<open>results\<close> and the
  events so far as arguments. The window size is a number the caller chooses; with a window
  size of zero or less the loop never ends, and the model then has no value (\<open>None\<close>).
\<close>

partial_function (option) batches ::
  "probes \<Rightarrow> string \<Rightarrow> string list \<Rightarrow> int \<Rightarrow> nat \<Rightarrow> int \<Rightarrow> DomainCheckResult list \<Rightarrow>
   event list \<Rightarrow> (js_error + DomainCheckResult list \<times> event list) option" where
  "batches env name tlds concurrency' batchDelay' i results' events =
     (if i < int (length tlds) then
        (let batch = slice tlds i (i + concurrency')
         in case promise_all (map (\<lambda>tld. checkDomain env (name @ ''.'' @ tld)) batch) of
              Inl e \<Rightarrow> Some (Inl e)
            | Inr batchResults \<Rightarrow>
                (let results'' = results' @ batchResults;
                     events' = events @ [Window (map (\<lambda>tld. name @ ''.'' @ tld) batch)]
                 in if i + concurrency' < int (length tlds)
                    then batches env name tlds concurrency' batchDelay' (i + concurrency')
                           results'' (events' @ [Sleep batchDelay'])
                    else batches env name tlds concurrency' batchDelay' (i + concurrency')
                           results'' events'))
      else Some (Inr (results', events)))"

definition checkAlternativeTlds ::
  "probes \<Rightarrow> string \<Rightarrow> string list \<Rightarrow> batch_options \<Rightarrow>
   (js_error + AlternativeTldResult \<times> event list) option" where
  "checkAlternativeTlds env domainName tlds options =
     (let concurrency' = (case concurrency options of None \<Rightarrow> DEFAULT_CONCURRENCY | Some c \<Rightarrow> c);
          batchDelay' = (case batchDelay options of None \<Rightarrow> BATCH_DELAY_MS | Some d \<Rightarrow> d)
      in case (if CHR ''.'' \<in> set domainName
               then (case parseDomain domainName of Inl e \<Rightarrow> Inl e | Inr (name, _) \<Rightarrow> Inr name)
               else Inr domainName) of
           Inl e \<Rightarrow> Some (Inl e)
         | Inr name \<Rightarrow>
             (case batches env name tlds concurrency' batchDelay' 0 [] [] of
                None \<Rightarrow> None
              | Some (Inl e) \<Rightarrow> Some (Inl e)
              | Some (Inr (results', events)) \<Rightarrow>
                  Some (Inr (\<lparr>originalDomain = name, results = results'\<rparr>, events))))"

definition no_options :: batch_options where
  \<comment> \<open>The default \<open>options = {}\<close>.\<close>
  "no_options = \<lparr>concurrency = None, batchDelay = None\<rparr>"

section \<open>The TypeScript listing\<close>

text \<open>
  The repository holds the checker twice: the compiled module \<open>dist/domain-checker.js\<close>,
  which the command line tool and the server import and which the definitions above follow,
  and the TypeScript listing of the same functions, kept in the sources after the command
  line tool (\<open>src/cli.ts\<close>). The listing has no timers: its DNS
  probe has no timeout case, its batch loop has no pause and takes five TLDs at a time by
  default. Its \<open>parseDomain\<close>, \<open>checkWhois\<close> and \<open>getSuggestedTlds\<close> are those of the
  compiled module. As the listing races no timer, a probe's outcome is what its promise
  settles with once it does.
\<close>

definition checkDns_ts :: "probes \<Rightarrow> string \<Rightarrow> DnsResult" where
  "checkDns_ts env domain' =
     (case dnsResolve env domain' of
        DnsResolved \<Rightarrow> \<lparr>dns_exists = True, dns_error = None\<rparr>
      | DnsRejected code message \<Rightarrow>
          if code = Some ''ENOTFOUND'' \<or> code = Some ''ENODATA''
          then \<lparr>dns_exists = False, dns_error = None\<rparr>
          else \<lparr>dns_exists = False, dns_error = Some message\<rparr>)"

definition checkDomain_ts :: "probes \<Rightarrow> string \<Rightarrow> js_error + DomainCheckResult" where
  "checkDomain_ts env domain' =
     (case parseDomain domain' of
        Inl e \<Rightarrow> Inl e
      | Inr (name, tld') \<Rightarrow>
          (let fullDomain = name @ ''.'' @ tld';
               dnsResult = checkDns_ts env fullDomain;
               whoisResult = checkWhois env fullDomain
           in if truthy (dns_error dnsResult) \<and> truthy (whois_error whoisResult)
              then Inr \<lparr>domain = fullDomain, tld = tld', available = False, method' = Both,
                        confidence = Low,
                        details = Some ''Both DNS and WHOIS checks failed'',
                        error = Some (''DNS: '' @ template (dns_error dnsResult) @ '', WHOIS: '' @
                                      template (whois_error whoisResult))\<rparr>
              else
                (let (available', confidence', method'', details') =
                   (if \<not> truthy (dns_error dnsResult) \<and> \<not> truthy (whois_error whoisResult)
                    then
                      (if \<not> dns_exists dnsResult \<and> whois_available whoisResult
                       then (True, High, Both, Some ''No DNS records and WHOIS shows available'')
                       else if dns_exists dnsResult \<and> \<not> whois_available whoisResult
                       then (False, High, Both,
                             Some ''DNS records exist and WHOIS shows registered'')
                       else if dns_exists dnsResult
                       then (False, High, Both, Some ''DNS records exist (domain is active)'')
                       else if \<not> whois_available whoisResult
                       then (False, Medium, Both,
                             Some ''No DNS but WHOIS shows registered (domain may be parked)'')
                       else (True, Medium, Both, whois_details whoisResult))
                    else if truthy (dns_error dnsResult)
                    then (whois_available whoisResult, Medium, Whois, whois_details whoisResult)
                    else (\<not> dns_exists dnsResult,
                          if dns_exists dnsResult then High else Medium,
                          Dns,
                          Some (if dns_exists dnsResult then ''DNS records exist''
                                else ''No DNS records found (may still be registered but inactive)'')))
                 in Inr \<lparr>domain = fullDomain, tld = tld', available = available',
                          method' = method'', confidence = confidence', details = details',
                          error = None\<rparr>)))"

partial_function (option) batches_ts ::
  "probes \<Rightarrow> string \<Rightarrow> string list \<Rightarrow> int \<Rightarrow> int \<Rightarrow> DomainCheckResult list \<Rightarrow>
   event list \<Rightarrow> (js_error + DomainCheckResult list \<times> event list) option" where
  "batches_ts env name tlds concurrency' i results' events =
     (if i < int (length tlds) then
        (let batch = slice tlds i (i + concurrency')
         in case promise_all (map (\<lambda>tld. checkDomain_ts env (name @ ''.'' @ tld)) batch) of
              Inl e \<Rightarrow> Some (Inl e)
            | Inr batchResults \<Rightarrow>
                batches_ts env name tlds concurrency' (i + concurrency')
                  (results' @ batchResults)
                  (events @ [Window (map (\<lambda>tld. name @ ''.'' @ tld) batch)]))
      else Some (Inr (results', events)))"

definition checkAlternativeTlds_ts ::
  "probes \<Rightarrow> string \<Rightarrow> string list \<Rightarrow> int option \<Rightarrow>
   (js_error + AlternativeTldResult \<times> event list) option" where
  \<comment> \<open>The last argument is \<open>options.concurrency\<close>.\<close>
  "checkAlternativeTlds_ts env domainName tlds concurrency_option =
     (let concurrency' = (case concurrency_option of None \<Rightarrow> 5 | Some c \<Rightarrow> c)
      in case (if CHR ''.'' \<in> set domainName
               then (case parseDomain domainName of Inl e \<Rightarrow> Inl e | Inr (name, _) \<Rightarrow> Inr name)
               else Inr domainName) of
           Inl e \<Rightarrow> Some (Inl e)
         | Inr name \<Rightarrow>
             (case batches_ts env name tlds concurrency' 0 [] [] of
                None \<Rightarrow> None
              | Some (Inl e) \<Rightarrow> Some (Inl e)
              | Some (Inr (results', events)) \<Rightarrow>
                  Some (Inr (\<lparr>originalDomain = name, results = results'\<rparr>, events))))"

definition events_of :: "(js_error + 'a \<times> event list) option \<Rightarrow> event list option" where
  \<comment> \<open>The events of a call that returned.\<close>
  "events_of outcome = (case outcome of Some (Inr (_, events)) \<Rightarrow> Some events | _ \<Rightarrow> None)"

section \<open>Suggested TLDs\<close>

fun set_add :: "'a list \<Rightarrow> 'a \<Rightarrow> 'a list" where
  \<comment> \<open>\<open>Set.prototype.add\<close>, the set kept as the list of its elements in insertion order.\<close>
  "set_add seen x = (if x \<in> set seen then seen else seen @ [x])"

definition new_Set :: "'a list \<Rightarrow> 'a list" where
  \<comment> \<open>\<open>[...new Set(xs)]\<close>: the first occurrence of each element, in order.\<close>
  "new_Set xs = foldl set_add [] xs"

definition getSuggestedTlds :: "string \<Rightarrow> string list" where
  "getSuggestedTlds purpose =
     (if purpose = ''tech'' then TECH_TLDS
      else if purpose = ''country'' then COUNTRY_TLDS
      else if purpose = ''all'' then new_Set (POPULAR_TLDS @ TECH_TLDS @ COUNTRY_TLDS)
      else POPULAR_TLDS)"

section \<open>Sample environments\<close>

definition const_probes :: "dns_outcome \<Rightarrow> whois_outcome \<Rightarrow> probes" where
  \<comment> \<open>An environment that answers every query alike.\<close>
  "const_probes d w = \<lparr>dnsResolve = (\<lambda>_. d), lookupAsync = (\<lambda>_. w)\<rparr>"

section \<open>Facts about strings and parsing\<close>

lemma lowerChar_dot: "lowerChar c = CHR ''.'' \<longleftrightarrow> c = CHR ''.''"
proof
  assume "c = CHR ''.''"
  then show "lowerChar c = CHR ''.''" by (simp add: lowerChar_def)
next
  assume low: "lowerChar c = CHR ''.''"
  let ?n = "of_char c :: nat"
  show "c = CHR ''.''"
  proof (cases "(65 \<le> ?n \<and> ?n \<le> 90) \<or> (192 \<le> ?n \<and> ?n \<le> 222 \<and> ?n \<noteq> 215)")
    case True
    then have "?n + 32 < 2 ^ 8" by auto
    then have tb: "take_bit 8 (?n + 32) = ?n + 32" by (rule take_bit_nat_eq_self)
    from True low have "char_of (?n + 32) = CHR ''.''"
      by (simp add: lowerChar_def Let_def)
    then have "?n + 32 = 46" using tb by (simp add: char_of_eq_iff)
    with True show ?thesis by auto
  next
    case False
    with low show ?thesis by (simp add: lowerChar_def Let_def)
  qed
qed

lemma toLowerCase_dot: "CHR ''.'' \<in> set (toLowerCase s) \<longleftrightarrow> CHR ''.'' \<in> set s"
proof (induction s)
  case Nil
  show ?case by (simp add: toLowerCase_def)
next
  case (Cons c cs)
  have "CHR ''.'' = lowerChar c \<longleftrightarrow> CHR ''.'' = c"
    using lowerChar_dot [of c] by auto
  with Cons show ?case by (simp add: toLowerCase_def)
qed

lemma dot_not_space: "\<not> isWhiteSpace (CHR ''.'')"
  by (simp add: isWhiteSpace_def)

lemma dropWhile_space_dot:
  "CHR ''.'' \<in> set (dropWhile isWhiteSpace s) \<longleftrightarrow> CHR ''.'' \<in> set s"
  by (induction s) (auto simp add: dot_not_space)

lemma trim_dot: "CHR ''.'' \<in> set (trim s) \<longleftrightarrow> CHR ''.'' \<in> set s"
  by (simp add: trim_def dropWhile_space_dot)

lemma split_dot_nonempty: "split_dot s \<noteq> []"
  by (induction s) (auto split: list.splits)

lemma split_dot_no_dot: "CHR ''.'' \<notin> set s \<Longrightarrow> split_dot s = [s]"
  by (induction s) auto

lemma split_dot_length: "length (split_dot s) = Suc (length (filter (\<lambda>c. c = CHR ''.'') s))"
  by (induction s) (auto split: list.splits)

lemma split_dot_with_dot:
  assumes "CHR ''.'' \<in> set s"
  shows "2 \<le> length (split_dot s)"
proof -
  from assms obtain x xs where "filter (\<lambda>c. c = CHR ''.'') s = x # xs"
    by (cases "filter (\<lambda>c. c = CHR ''.'') s") (auto simp add: filter_empty_conv)
  then show ?thesis by (simp add: split_dot_length)
qed

lemma join_split_dot: "join_dot (split_dot s) = s"
proof (induction s)
  case Nil
  show ?case by simp
next
  case (Cons c cs)
  obtain p ps where sp: "split_dot cs = p # ps"
    using split_dot_nonempty [of cs] by (cases "split_dot cs") auto
  show ?case
  proof (cases "c = CHR ''.''")
    case True
    with Cons sp show ?thesis by simp
  next
    case False
    with Cons sp show ?thesis by (cases ps) auto
  qed
qed

lemma join_dot_snoc: "ps \<noteq> [] \<Longrightarrow> join_dot (ps @ [q]) = join_dot ps @ ''.'' @ q"
  by (induction ps rule: join_dot.induct) auto

lemma join_butlast_last:
  assumes "2 \<le> length ps"
  shows "join_dot (butlast ps) @ ''.'' @ last ps = join_dot ps"
proof -
  from assms have ne: "ps \<noteq> []" and bne: "butlast ps \<noteq> []"
    by (auto simp add: butlast_conv_take)
  have "join_dot ps = join_dot (butlast ps @ [last ps])"
    using ne by simp
  also have "\<dots> = join_dot (butlast ps) @ ''.'' @ last ps"
    using bne by (rule join_dot_snoc)
  finally show ?thesis by simp
qed

lemma parseDomain_no_dot:
  "CHR ''.'' \<notin> set d \<Longrightarrow>
   parseDomain d = Inl (Error (''Invalid domain format: '' @ d @ ''. Expected format: name.tld''))"
  by (simp add: parseDomain_def Let_def trim_dot toLowerCase_dot split_dot_no_dot)

lemma parseDomain_dot:
  assumes "CHR ''.'' \<in> set d"
  shows "\<exists>name t. parseDomain d = Inr (name, t) \<and> name @ ''.'' @ t = trim (toLowerCase d)"
proof -
  let ?parts = "split_dot (trim (toLowerCase d))"
  from assms have "CHR ''.'' \<in> set (trim (toLowerCase d))"
    by (simp add: trim_dot toLowerCase_dot)
  then have len: "2 \<le> length ?parts" by (rule split_dot_with_dot)
  then have "join_dot (butlast ?parts) @ ''.'' @ last ?parts = trim (toLowerCase d)"
    using join_butlast_last [of ?parts] by (simp add: join_split_dot)
  moreover from len have "parseDomain d = Inr (join_dot (butlast ?parts), last ?parts)"
    by (simp add: parseDomain_def Let_def)
  ultimately show ?thesis by blast
qed

lemma parseDomain_Inr_full:
  assumes "parseDomain d = Inr (name, t)"
  shows "name @ ''.'' @ t = trim (toLowerCase d)"
proof -
  have "CHR ''.'' \<in> set d"
  proof (rule ccontr)
    assume "CHR ''.'' \<notin> set d"
    then show False using assms by (simp add: parseDomain_no_dot)
  qed
  from parseDomain_dot [OF this] assms show ?thesis by auto
qed

section \<open>Facts about the verdict of one domain\<close>

lemma checkDomain_Inr_parsed:
  assumes "checkDomain env d = Inr r"
  shows "\<exists>name t. parseDomain d = Inr (name, t) \<and> domain r = name @ ''.'' @ t \<and> tld r = t"
proof (cases "parseDomain d")
  case (Inl e)
  with assms show ?thesis by (simp add: checkDomain_def)
next
  case (Inr p)
  obtain name t where p: "p = (name, t)" by (cases p)
  from assms Inr p have "domain r = name @ ''.'' @ t \<and> tld r = t"
    by (auto simp add: checkDomain_def Let_def split: if_splits)
  with Inr p show ?thesis by simp
qed

lemma checkDns_resolved:
  "dnsResolve env q = DnsResolved \<Longrightarrow> checkDns env q = \<lparr>dns_exists = True, dns_error = None\<rparr>"
  by (simp add: checkDns_def)

lemma checkDns_exists_no_error: "dns_exists (checkDns env q) \<Longrightarrow> dns_error (checkDns env q) = None"
  by (simp add: checkDns_def split: dns_outcome.splits if_splits)

lemma checkWhois_available_no_error:
  "whois_available (checkWhois env q) \<Longrightarrow> whois_error (checkWhois env q) = None"
  by (simp add: checkWhois_def Let_def split: whois_outcome.splits if_splits)

text \<open>
  C1. Whenever the DNS probe resolves the name (a record exists, no DNS error), the call
  returns a result with \<open>available = false\<close> and \<open>confidence = high\<close>, whatever the WHOIS
  probe did: classified the text as available, as taken, or failed.
\<close>

theorem dns_record_exists_never_available:
  assumes "parseDomain d = Inr (name, t)"
    and "dnsResolve env (name @ ''.'' @ t) = DnsResolved"
  shows "\<exists>r. checkDomain env d = Inr r \<and> \<not> available r \<and> confidence r = High"
proof -
  have dns: "checkDns env (name @ ''.'' @ t) = \<lparr>dns_exists = True, dns_error = None\<rparr>"
    using assms(2) by (rule checkDns_resolved)
  show ?thesis
    using assms(1) dns by (simp add: checkDomain_def Let_def truthy_def)
qed

theorem dns_record_exists_never_available_witness:
  "parseDomain ''example.com'' = Inr (''example'', ''com'') \<and>
   (\<exists>r. checkDomain (const_probes DnsResolved (WhoisData ''No match for EXAMPLE.COM''))
          ''example.com'' = Inr r \<and> \<not> available r \<and> confidence r = High) \<and>
   (\<exists>r. checkDomain (const_probes DnsResolved (WhoisRejected ''connect ECONNREFUSED''))
          ''example.com'' = Inr r \<and> \<not> available r \<and> confidence r = High)"
proof -
  have p: "parseDomain ''example.com'' = Inr (''example'', ''com'')"
    by code_simp
  have d: "dnsResolve (const_probes DnsResolved w) (''example'' @ ''.'' @ ''com'') = DnsResolved" for w
    by (simp add: const_probes_def)
  show ?thesis
    using p dns_record_exists_never_available [OF p d] by blast
qed

text \<open>
  When both probes fail (the resolver rejects with a code other than \<open>ENOTFOUND\<close> and
  \<open>ENODATA\<close>, the WHOIS lookup rejects) and each rejection carries a message that is not
  empty, the call returns the total-failure result: \<open>available = false\<close>,
  \<open>confidence = low\<close>, \<open>method = both\<close>, and \<open>error\<close> is
  \<open>DNS: <dns error>, WHOIS: <whois error>\<close>, which contains both probes' error descriptions.
\<close>

lemma both_probes_fail_with_messages:
  assumes "parseDomain d = Inr (name, t)"
    and "dnsResolve env (name @ ''.'' @ t) = DnsRejected code message"
    and "code \<noteq> Some ''ENOTFOUND''" and "code \<noteq> Some ''ENODATA''" and "message \<noteq> []"
    and "lookupAsync env (name @ ''.'' @ t) = WhoisRejected wmessage" and "wmessage \<noteq> []"
  shows "\<exists>r dmessage.
           checkDomain env d = Inr r \<and> \<not> available r \<and> confidence r = Low \<and> method' r = Both \<and>
           dns_error (checkDns env (name @ ''.'' @ t)) = Some dmessage \<and>
           whois_error (checkWhois env (name @ ''.'' @ t)) = Some wmessage \<and>
           error r = Some (''DNS: '' @ dmessage @ '', WHOIS: '' @ wmessage) \<and>
           sublist dmessage (the (error r)) \<and> sublist wmessage (the (error r))"
proof -
  define dmessage where
    "dmessage = (if message = ''DNS lookup timed out'' then ''timeout'' else message)"
  have dne: "dmessage \<noteq> []"
    using assms(5) by (simp add: dmessage_def)
  have dns: "checkDns env (name @ ''.'' @ t) = \<lparr>dns_exists = False, dns_error = Some dmessage\<rparr>"
    using assms(2,3,4) by (simp add: checkDns_def dmessage_def)
  have whois: "checkWhois env (name @ ''.'' @ t) =
      \<lparr>whois_available = False, whois_details = None, whois_error = Some wmessage\<rparr>"
    using assms(6) by (simp add: checkWhois_def)
  define r where "r = \<lparr>domain = name @ ''.'' @ t, tld = t, available = False, method' = Both,
      confidence = Low, details = Some ''Both DNS and WHOIS checks failed'',
      error = Some (''DNS: '' @ dmessage @ '', WHOIS: '' @ wmessage)\<rparr>"
  have ret: "checkDomain env d = Inr r"
    using assms(1,7) dne dns whois
    by (simp add: checkDomain_def Let_def truthy_def template_def r_def)
  have s1: "sublist dmessage (''DNS: '' @ dmessage @ '', WHOIS: '' @ wmessage)"
    by (rule sublist_appendI)
  have s2: "sublist wmessage ((''DNS: '' @ dmessage @ '', WHOIS: '') @ wmessage @ [])"
    by (rule sublist_appendI)
  from ret s1 s2 dns whois show ?thesis
    by (intro exI [of _ r] exI [of _ dmessage]) (simp add: r_def)
qed

lemma both_probes_fail_with_messages_example:
  "parseDomain ''example.com'' = Inr (''example'', ''com'') \<and>
   (\<exists>r. checkDomain
           (const_probes (DnsRejected (Some ''ESERVFAIL'') ''queryA ESERVFAIL example.com'')
                         (WhoisRejected ''connect ECONNREFUSED''))
           ''example.com'' = Inr r \<and>
        \<not> available r \<and> confidence r = Low \<and> method' r = Both \<and>
        error r = Some ''DNS: queryA ESERVFAIL example.com, WHOIS: connect ECONNREFUSED'')"
proof -
  let ?env = "const_probes (DnsRejected (Some ''ESERVFAIL'') ''queryA ESERVFAIL example.com'')
                           (WhoisRejected ''connect ECONNREFUSED'')"
  have p: "parseDomain ''example.com'' = Inr (''example'', ''com'')"
    by code_simp
  have d: "dnsResolve ?env (''example'' @ ''.'' @ ''com'') =
             DnsRejected (Some ''ESERVFAIL'') ''queryA ESERVFAIL example.com''"
    by (simp add: const_probes_def)
  have w: "lookupAsync ?env (''example'' @ ''.'' @ ''com'') = WhoisRejected ''connect ECONNREFUSED''"
    by (simp add: const_probes_def)
  have c1: "Some ''ESERVFAIL'' \<noteq> Some ''ENOTFOUND''" and c2: "Some ''ESERVFAIL'' \<noteq> Some ''ENODATA''"
    and m1: "''queryA ESERVFAIL example.com'' \<noteq> []" and m2: "''connect ECONNREFUSED'' \<noteq> []"
    by simp_all
  from both_probes_fail_with_messages [OF p d c1 c2 m1 w m2]
  obtain r dmessage where r: "checkDomain ?env ''example.com'' = Inr r"
    and v: "\<not> available r" "confidence r = Low" "method' r = Both"
    and dm: "dns_error (checkDns ?env (''example'' @ ''.'' @ ''com'')) = Some dmessage"
    and e: "error r = Some (''DNS: '' @ dmessage @ '', WHOIS: '' @ ''connect ECONNREFUSED'')"
    by blast
  from dm have "dmessage = ''queryA ESERVFAIL example.com''"
    by (simp add: checkDns_def const_probes_def)
  with e have "error r = Some ''DNS: queryA ESERVFAIL example.com, WHOIS: connect ECONNREFUSED''"
    by simp
  with p r v show ?thesis by blast
qed

text \<open>
  C3. When both probes fail, the result should be \<open>available = false\<close>, \<open>confidence = low\<close>,
  \<open>method = both\<close>, with both error descriptions in \<open>error\<close>. The code misses the case of
  an empty error message: \<open>checkDomain\<close> asks whether a probe failed by testing its error
  text for truth, and the empty string is false. Here the resolver fails with \<open>ESERVFAIL\<close>
  and the WHOIS connection fails with an error whose message is empty; the result names the
  method \<open>whois\<close> with medium confidence, as if the WHOIS probe had worked, and has neither
  details nor error.
\<close>

theorem both_probes_fail_empty_message:
  "dnsResolve (const_probes (DnsRejected (Some ''ESERVFAIL'') ''queryA ESERVFAIL example.com'')
                            (WhoisRejected [])) ''example.com'' =
     DnsRejected (Some ''ESERVFAIL'') ''queryA ESERVFAIL example.com'' \<and>
   lookupAsync (const_probes (DnsRejected (Some ''ESERVFAIL'') ''queryA ESERVFAIL example.com'')
                             (WhoisRejected [])) ''example.com'' = WhoisRejected [] \<and>
   dns_error (checkDns (const_probes (DnsRejected (Some ''ESERVFAIL'') ''queryA ESERVFAIL example.com'')
                                     (WhoisRejected [])) ''example.com'') =
     Some ''queryA ESERVFAIL example.com'' \<and>
   whois_error (checkWhois (const_probes (DnsRejected (Some ''ESERVFAIL'') ''queryA ESERVFAIL example.com'')
                                         (WhoisRejected [])) ''example.com'') = Some [] \<and>
   checkDomain (const_probes (DnsRejected (Some ''ESERVFAIL'') ''queryA ESERVFAIL example.com'')
                             (WhoisRejected []))
     ''example.com'' =
   Inr \<lparr>domain = ''example.com'', tld = ''com'', available = False, method' = Whois,
        confidence = Medium, details = None, error = None\<rparr>"
proof -
  have p: "parseDomain ''example.com'' = Inr (''example'', ''com'')"
    by code_simp
  show ?thesis
    using p by (simp add: checkDomain_def Let_def checkDns_def checkWhois_def const_probes_def
        truthy_def)
qed







text \<open>
  C10. A result with \<open>method = both\<close> and \<open>available = true\<close> has \<open>confidence = high\<close>: when
  both probes succeed, no available verdict of medium confidence is produced, since "no
  DNS record and WHOIS available" is taken by the first branch.
\<close>

theorem both_available_is_high:
  assumes "checkDomain env d = Inr r" and "method' r = Both" and "available r"
  shows "confidence r = High"
proof -
  from assms(1) obtain name t where p: "parseDomain d = Inr (name, t)"
    using checkDomain_Inr_parsed by blast
  from assms p show ?thesis
    by (auto simp add: checkDomain_def Let_def split: if_splits)
qed

theorem both_available_is_high_witness:
  "checkDomain (const_probes (DnsRejected (Some ''ENOTFOUND'') ''queryA ENOTFOUND example.com'')
                             (WhoisData ''No match for EXAMPLE.COM''))
     ''example.com'' =
   Inr \<lparr>domain = ''example.com'', tld = ''com'', available = True, method' = Both,
        confidence = High, details = Some ''No DNS records and WHOIS shows available'',
        error = None\<rparr>"
proof -
  let ?env = "const_probes (DnsRejected (Some ''ENOTFOUND'') ''queryA ENOTFOUND example.com'')
                             (WhoisData ''No match for EXAMPLE.COM'')"
  have p: "parseDomain ''example.com'' = Inr (''example'', ''com'')"
    by code_simp
  have w: "checkWhois ?env ''example.com'' = \<lparr>whois_available = True,
                    whois_details = Some ''WHOIS shows domain is not registered'',
                    whois_error = None\<rparr>"
    by code_simp
  obtain r where r: "checkDomain ?env ''example.com'' = Inr r"
    and f: "domain r = ''example.com''" "tld r = ''com''" "available r" "method' r = Both"
      "details r = Some ''No DNS records and WHOIS shows available''" "error r = None"
    using p w by (simp add: checkDomain_def Let_def checkDns_def const_probes_def truthy_def)
  from both_available_is_high [OF r f(4) f(3)] have "confidence r = High" .
  with r f show ?thesis by (cases r) simp
qed

text \<open>
  C8. A domain string without a dot makes \<open>checkDomain\<close> fail with the input-format error
  of \<open>parseDomain\<close>; no probe outcome matters and no result is returned.
\<close>

theorem no_dot_is_rejected:
  assumes "CHR ''.'' \<notin> set d"
  shows "checkDomain env d =
           Inl (Error (''Invalid domain format: '' @ d @ ''. Expected format: name.tld''))"
  using assms by (simp add: checkDomain_def parseDomain_no_dot)

theorem no_dot_is_rejected_witness:
  "CHR ''.'' \<notin> set ''x'' \<and>
   checkDomain (const_probes DnsResolved (WhoisData ''Registrar: Example Corp'')) ''x'' =
     Inl (Error ''Invalid domain format: x. Expected format: name.tld'')"
proof -
  have h: "CHR ''.'' \<notin> set ''x''" by simp
  from no_dot_is_rejected [OF h] h show ?thesis by simp
qed

section \<open>Facts about the suggested TLDs\<close>

lemma foldl_set_add_set: "set (foldl set_add seen xs) = set seen \<union> set xs"
  by (induction xs arbitrary: seen) auto

lemma foldl_set_add_distinct: "distinct seen \<Longrightarrow> distinct (foldl set_add seen xs)"
  by (induction xs arbitrary: seen) auto

lemma set_new_Set: "set (new_Set xs) = set xs"
  by (simp add: new_Set_def foldl_set_add_set)

lemma distinct_new_Set: "distinct (new_Set xs)"
  by (simp add: new_Set_def foldl_set_add_distinct)

text \<open>
  C9. \<open>getSuggestedTlds("all")\<close> is the union of the general, tech and country lists without
  duplicates: no entry occurs twice, and its entries are exactly those of the three lists
  (so every tech, general and country TLD occurs in it).
\<close>

theorem all_tlds_deduplicated_union:
  "distinct (getSuggestedTlds ''all'') \<and>
   set (getSuggestedTlds ''all'') =
     set (getSuggestedTlds ''general'') \<union> set (getSuggestedTlds ''tech'') \<union>
     set (getSuggestedTlds ''country'') \<and>
   getSuggestedTlds ''general'' = POPULAR_TLDS \<and> getSuggestedTlds ''tech'' = TECH_TLDS \<and>
   getSuggestedTlds ''country'' = COUNTRY_TLDS"
proof -
  have all: "getSuggestedTlds ''all'' = new_Set (POPULAR_TLDS @ TECH_TLDS @ COUNTRY_TLDS)"
    and rest: "getSuggestedTlds ''general'' = POPULAR_TLDS" "getSuggestedTlds ''tech'' = TECH_TLDS"
      "getSuggestedTlds ''country'' = COUNTRY_TLDS"
    by (simp_all add: getSuggestedTlds_def)
  have "distinct (getSuggestedTlds ''all'')"
    unfolding all by (rule distinct_new_Set)
  moreover have "set (getSuggestedTlds ''all'') = set POPULAR_TLDS \<union> set TECH_TLDS \<union> set COUNTRY_TLDS"
    unfolding all by (simp add: set_new_Set Un_assoc)
  ultimately show ?thesis
    using rest by simp
qed

lemma all_tlds_value:
  "getSuggestedTlds ''all'' =
     [''com'', ''net'', ''org'', ''io'', ''co'', ''dev'', ''app'', ''ai'', ''xyz'', ''me'',
      ''info'', ''biz'', ''tech'', ''online'', ''site'', ''cloud'',
      ''software'', ''systems'', ''digital'', ''code'',
      ''uk'', ''de'', ''fr'', ''nl'', ''es'', ''it'', ''pl'', ''ru'', ''jp'', ''cn'', ''au'',
      ''ca'', ''us'', ''in'', ''br'']"
  by code_simp

lemma tld_list_sizes:
  "length (getSuggestedTlds ''general'') = 16 \<and> length (getSuggestedTlds ''tech'') = 10 \<and>
   length (getSuggestedTlds ''country'') = 15 \<and> length (getSuggestedTlds ''all'') = 35"
  unfolding all_tlds_value by (simp add: getSuggestedTlds_def POPULAR_TLDS_def TECH_TLDS_def COUNTRY_TLDS_def)

section \<open>Facts about the WHOIS classifier\<close>

lemma matchHere_lit:
  "matchHere (lit p) prev s \<longleftrightarrow>
     (\<exists>v w. s = v @ w \<and> map canonicalize v = map canonicalize p)"
proof (induction p arbitrary: prev s)
  case Nil
  show ?case by (simp add: lit_def)
next
  case (Cons c cs)
  show ?case
  proof (cases s)
    case Nil
    then show ?thesis by (simp add: lit_def)
  next
    case (Cons x xs)
    have "matchHere (lit (c # cs)) prev (x # xs) \<longleftrightarrow>
            canonicalize x = canonicalize c \<and> matchHere (lit cs) (Some x) xs"
      by (simp add: lit_def)
    also have "\<dots> \<longleftrightarrow> canonicalize x = canonicalize c \<and>
            (\<exists>v w. xs = v @ w \<and> map canonicalize v = map canonicalize cs)"
      by (simp only: Cons.IH)
    also have "\<dots> \<longleftrightarrow> (\<exists>v w. x # xs = v @ w \<and> map canonicalize v = map canonicalize (c # cs))"
    proof
      assume "canonicalize x = canonicalize c \<and>
            (\<exists>v w. xs = v @ w \<and> map canonicalize v = map canonicalize cs)"
      then obtain v w where "xs = v @ w" "map canonicalize v = map canonicalize cs"
        and "canonicalize x = canonicalize c" by blast
      then have "x # xs = (x # v) @ w \<and> map canonicalize (x # v) = map canonicalize (c # cs)"
        by simp
      then show "\<exists>v w. x # xs = v @ w \<and> map canonicalize v = map canonicalize (c # cs)"
        by blast
    next
      assume "\<exists>v w. x # xs = v @ w \<and> map canonicalize v = map canonicalize (c # cs)"
      then obtain v w where vw: "x # xs = v @ w" "map canonicalize v = map canonicalize (c # cs)"
        by blast
      from vw(2) obtain y ys where v: "v = y # ys" by (cases v) auto
      with vw show "canonicalize x = canonicalize c \<and>
            (\<exists>v w. xs = v @ w \<and> map canonicalize v = map canonicalize cs)"
        by auto
    qed
    finally show ?thesis using Cons by simp
  qed
qed

lemma searchFrom_lit:
  "searchFrom (lit p) prev s \<longleftrightarrow>
     (\<exists>u v w. s = u @ v @ w \<and> map canonicalize v = map canonicalize p)"
proof (induction s arbitrary: prev)
  case Nil
  show ?case by (auto simp add: matchHere_lit)
next
  case (Cons x xs)
  have "searchFrom (lit p) prev (x # xs) \<longleftrightarrow>
          (\<exists>v w. x # xs = v @ w \<and> map canonicalize v = map canonicalize p) \<or>
          (\<exists>u v w. xs = u @ v @ w \<and> map canonicalize v = map canonicalize p)"
    by (simp only: searchFrom.simps matchHere_lit Cons.IH)
  also have "\<dots> \<longleftrightarrow> (\<exists>u v w. x # xs = u @ v @ w \<and> map canonicalize v = map canonicalize p)"
  proof
    assume "(\<exists>v w. x # xs = v @ w \<and> map canonicalize v = map canonicalize p) \<or>
          (\<exists>u v w. xs = u @ v @ w \<and> map canonicalize v = map canonicalize p)"
    then show "\<exists>u v w. x # xs = u @ v @ w \<and> map canonicalize v = map canonicalize p"
    proof
      assume "\<exists>v w. x # xs = v @ w \<and> map canonicalize v = map canonicalize p"
      then obtain v w where "x # xs = [] @ v @ w \<and> map canonicalize v = map canonicalize p"
        by auto
      then show ?thesis by blast
    next
      assume "\<exists>u v w. xs = u @ v @ w \<and> map canonicalize v = map canonicalize p"
      then obtain u v w where "x # xs = (x # u) @ v @ w \<and> map canonicalize v = map canonicalize p"
        by auto
      then show ?thesis by blast
    qed
  next
    assume "\<exists>u v w. x # xs = u @ v @ w \<and> map canonicalize v = map canonicalize p"
    then obtain u v w where uvw: "x # xs = u @ v @ w" "map canonicalize v = map canonicalize p"
      by blast
    show "(\<exists>v w. x # xs = v @ w \<and> map canonicalize v = map canonicalize p) \<or>
          (\<exists>u v w. xs = u @ v @ w \<and> map canonicalize v = map canonicalize p)"
    proof (cases u)
      case Nil
      with uvw show ?thesis by auto
    next
      case (Cons y ys)
      with uvw have "xs = ys @ v @ w" by simp
      with uvw(2) show ?thesis by blast
    qed
  qed
  finally show ?case .
qed

text \<open>
  A pattern of literal characters tests for a substring of the text that equals the
  pattern up to the case of its letters.
\<close>

lemma test_lit:
  "test (lit p) s \<longleftrightarrow> (\<exists>v. sublist v s \<and> map canonicalize v = map canonicalize p)"
  by (auto simp add: test_def searchFrom_lit sublist_def)

lemma canonicalize_ascii_letter:
  "canonicalize (CHR ''a'') = canonicalize (CHR ''A'')"
  "canonicalize (CHR ''z'') = canonicalize (CHR ''Z'')"
  "canonicalize (CHR ''a'') \<noteq> canonicalize (CHR ''b'')"
  by (simp_all add: canonicalize_def)

lemma pattern_examples:
  "test (lit ''status:'' @ [WsStar] @ lit ''free'') ''Domain Status:     FREE''"
  "test (lit ''status:'' @ [WsStar] @ lit ''free'') ''status:free''"
  "\<not> test (lit ''status:'' @ [WsStar] @ lit ''free'') ''status: not free''"
  "test (lit ''domain name:'' @ [WsStar, AnyPlus]) ''Domain Name: EXAMPLE.COM''"
  "test (lit ''domain name:'' @ [WsStar, AnyPlus]) ''Domain Name:  \<newline>''"
  "\<not> test (lit ''domain name:'' @ [WsStar, AnyPlus]) ''Domain Name:\<newline>''"
  "test ([LineStart] @ lit ''% no match'' @ [LineEnd]) ''% whois.example\<newline>% No match\<newline>''"
  "\<not> test ([LineStart] @ lit ''% no match'' @ [LineEnd]) ''% No match for example.com''"
  by code_simp+

text \<open>
  C2. On the text the WHOIS lookup returned, the classifier decides as follows: when some
  available-pattern matches and no taken-pattern does, \<open>available = true\<close>; when some
  taken-pattern matches, \<open>available = false\<close>, also when an available-pattern matches as
  well; when no pattern of either set matches, \<open>available = false\<close> with the details
  \<open>WHOIS result ambiguous, assuming taken\<close>. None of the three carries an error.
\<close>

theorem whois_decision_policy:
  assumes "lookupAsync env q = WhoisData whoisData"
  shows "((\<exists>p \<in> set availablePatterns. test p whoisData) \<and>
          \<not> (\<exists>p \<in> set takenPatterns. test p whoisData) \<longrightarrow>
            checkWhois env q =
              \<lparr>whois_available = True,
               whois_details = Some ''WHOIS shows domain is not registered'',
               whois_error = None\<rparr>) \<and>
         ((\<exists>p \<in> set takenPatterns. test p whoisData) \<longrightarrow>
            checkWhois env q =
              \<lparr>whois_available = False,
               whois_details = Some ''WHOIS shows domain is registered'',
               whois_error = None\<rparr>) \<and>
         (\<not> (\<exists>p \<in> set availablePatterns. test p whoisData) \<and>
          \<not> (\<exists>p \<in> set takenPatterns. test p whoisData) \<longrightarrow>
            checkWhois env q =
              \<lparr>whois_available = False,
               whois_details = Some ''WHOIS result ambiguous, assuming taken'',
               whois_error = None\<rparr> \<and>
            sublist ''ambiguous, assuming taken'' (the (whois_details (checkWhois env q))))"
proof -
  have amb: "sublist ''ambiguous, assuming taken''
               (''WHOIS result '' @ ''ambiguous, assuming taken'' @ [])"
    by (rule sublist_appendI)
  show ?thesis
    using assms amb by (simp add: checkWhois_def some_def list_ex_iff Let_def)
qed

theorem whois_decision_policy_witness:
  "checkWhois (const_probes DnsResolved (WhoisData ''No match for EXAMPLE.COM'')) ''example.com'' =
     \<lparr>whois_available = True,
      whois_details = Some ''WHOIS shows domain is not registered'',
      whois_error = None\<rparr> \<and>
   checkWhois (const_probes DnsResolved
                 (WhoisData ''No match for domain.\<newline>Registrar: Example Corp'')) ''example.com'' =
     \<lparr>whois_available = False,
      whois_details = Some ''WHOIS shows domain is registered'',
      whois_error = None\<rparr> \<and>
   checkWhois (const_probes DnsResolved (WhoisData ''Query rate exceeded'')) ''example.com'' =
     \<lparr>whois_available = False,
      whois_details = Some ''WHOIS result ambiguous, assuming taken'',
      whois_error = None\<rparr>"
proof -
  let ?t1 = "''No match for EXAMPLE.COM''"
  let ?t2 = "''No match for domain.\<newline>Registrar: Example Corp''"
  let ?t3 = "''Query rate exceeded''"
  have l: "lookupAsync (const_probes DnsResolved (WhoisData t)) ''example.com'' = WhoisData t" for t
    by (simp add: const_probes_def)
  have a1: "list_ex (\<lambda>p. test p ?t1) availablePatterns" by code_simp
  have n1: "\<not> list_ex (\<lambda>p. test p ?t1) takenPatterns" by code_simp
  have a2: "list_ex (\<lambda>p. test p ?t2) availablePatterns" by code_simp
  have k2: "list_ex (\<lambda>p. test p ?t2) takenPatterns" by code_simp
  have n3: "\<not> list_ex (\<lambda>p. test p ?t3) availablePatterns" by code_simp
  have m3: "\<not> list_ex (\<lambda>p. test p ?t3) takenPatterns" by code_simp
  from whois_decision_policy [OF l [of ?t1]] a1 n1
  have c1: "checkWhois (const_probes DnsResolved (WhoisData ?t1)) ''example.com'' =
     \<lparr>whois_available = True,
      whois_details = Some ''WHOIS shows domain is not registered'',
      whois_error = None\<rparr>"
    unfolding list_ex_iff by blast
  from whois_decision_policy [OF l [of ?t2]] k2
  have c2: "checkWhois (const_probes DnsResolved (WhoisData ?t2)) ''example.com'' =
     \<lparr>whois_available = False,
      whois_details = Some ''WHOIS shows domain is registered'',
      whois_error = None\<rparr>"
    unfolding list_ex_iff by blast
  from whois_decision_policy [OF l [of ?t3]] n3 m3
  have c3: "checkWhois (const_probes DnsResolved (WhoisData ?t3)) ''example.com'' =
     \<lparr>whois_available = False,
      whois_details = Some ''WHOIS result ambiguous, assuming taken'',
      whois_error = None\<rparr>"
    unfolding list_ex_iff by blast
  from c1 c2 c3 show ?thesis by (intro conjI)
qed

section \<open>Facts about the batch loop\<close>

lemma checkDomain_parsed_returns:
  assumes "parseDomain d = Inr (name, t)"
  shows "\<exists>r. checkDomain env d = Inr r \<and> domain r = name @ ''.'' @ t \<and> tld r = t"
  using assms by (simp add: checkDomain_def Let_def split: prod.splits)

lemma checkDomain_dotted:
  "\<exists>r. checkDomain env (name @ ''.'' @ t) = Inr r \<and>
       domain r = trim (toLowerCase (name @ ''.'' @ t))"
proof -
  have "CHR ''.'' \<in> set (name @ ''.'' @ t)" by simp
  from parseDomain_dot [OF this] obtain n' t' where
    p: "parseDomain (name @ ''.'' @ t) = Inr (n', t')"
    and f: "n' @ ''.'' @ t' = trim (toLowerCase (name @ ''.'' @ t))"
    by blast
  from checkDomain_parsed_returns [OF p, of env] f show ?thesis by auto
qed

lemma promise_all_checkDomain:
  "\<exists>rs. promise_all (map (\<lambda>t. checkDomain env (name @ ''.'' @ t)) ts) = Inr rs \<and>
        list_all2 (\<lambda>t r. checkDomain env (name @ ''.'' @ t) = Inr r) ts rs"
proof (induction ts)
  case Nil
  show ?case by simp
next
  case (Cons t ts)
  from checkDomain_dotted [of env name t] obtain r
    where r: "checkDomain env (name @ ''.'' @ t) = Inr r" by blast
  from Cons obtain rs
    where rs: "promise_all (map (\<lambda>t. checkDomain env (name @ ''.'' @ t)) ts) = Inr rs"
      and all: "list_all2 (\<lambda>t r. checkDomain env (name @ ''.'' @ t) = Inr r) ts rs"
    by blast
  from r rs all show ?case by simp
qed

lemma slice_window:
  assumes "0 \<le> i" and "i < int (length xs)" and "0 < c"
  shows "slice xs i (i + c) = take (nat c) (drop (nat i) xs)"
proof -
  have "nat (min (i + c) (int (length xs)) - i) = min (nat c) (length xs - nat i)"
    using assms by (simp add: min_def nat_diff_distrib) linarith
  then have "take (nat (min (i + c) (int (length xs)) - i)) (drop (nat i) xs) =
      take (nat c) (drop (nat i) xs)"
    by (simp add: min_def)
  with assms show ?thesis
    by (simp add: slice_def Let_def min_def)
qed

lemma batches_step:
  assumes "i < int (length tlds)"
    and "promise_all (map (\<lambda>t. checkDomain env (name @ ''.'' @ t)) (slice tlds i (i + c))) = Inr brs"
  shows "batches env name tlds c delay i rs evs =
         batches env name tlds c delay (i + c) (rs @ brs)
           (evs @ Window (map (\<lambda>t. name @ ''.'' @ t) (slice tlds i (i + c))) #
              (if i + c < int (length tlds) then [Sleep delay] else []))"
  using assms by (subst batches.simps) (simp add: Let_def)

lemma batches_done:
  assumes "\<not> i < int (length tlds)"
  shows "batches env name tlds c delay i rs evs = Some (Inr (rs, evs))"
  using assms by (subst batches.simps) simp

lemma batches_returns:
  assumes "0 < c" and "0 \<le> i"
  shows "\<exists>rs' evs'. batches env name tlds c delay i rs evs = Some (Inr (rs @ rs', evs')) \<and>
           list_all2 (\<lambda>t r. checkDomain env (name @ ''.'' @ t) = Inr r) (drop (nat i) tlds) rs'"
  using assms(2)
proof (induction "length tlds - nat i" arbitrary: i rs evs rule: less_induct)
  case less
  show ?case
  proof (cases "i < int (length tlds)")
    case False
    then have "drop (nat i) tlds = []" by simp
    with batches_done [OF False] show ?thesis by simp
  next
    case True
    let ?batch = "slice tlds i (i + c)"
    from promise_all_checkDomain [of env name ?batch] obtain brs
      where brs: "promise_all (map (\<lambda>t. checkDomain env (name @ ''.'' @ t)) ?batch) = Inr brs"
        and ball: "list_all2 (\<lambda>t r. checkDomain env (name @ ''.'' @ t) = Inr r) ?batch brs"
      by blast
    have win: "?batch = take (nat c) (drop (nat i) tlds)"
      using less.prems True assms(1) by (rule slice_window)
    have smaller: "length tlds - nat (i + c) < length tlds - nat i"
      using True less.prems assms(1) by linarith
    have nonneg: "0 \<le> i + c"
      using less.prems assms(1) by simp
    from less.hyps [OF smaller nonneg] obtain rs' evs'
      where rec: "batches env name tlds c delay (i + c) (rs @ brs)
                    (evs @ Window (map (\<lambda>t. name @ ''.'' @ t) ?batch) #
                       (if i + c < int (length tlds) then [Sleep delay] else [])) =
                  Some (Inr ((rs @ brs) @ rs', evs'))"
        and rall: "list_all2 (\<lambda>t r. checkDomain env (name @ ''.'' @ t) = Inr r)
                     (drop (nat (i + c)) tlds) rs'"
      by blast
    have split: "drop (nat i) tlds = ?batch @ drop (nat (i + c)) tlds"
    proof -
      have "nat (i + c) = nat c + nat i"
        using less.prems assms(1) by (simp add: nat_add_distrib)
      then have "drop (nat (i + c)) tlds = drop (nat c) (drop (nat i) tlds)"
        by (simp only: drop_drop)
      then show ?thesis unfolding win by (simp only: append_take_drop_id)
    qed
    have "list_all2 (\<lambda>t r. checkDomain env (name @ ''.'' @ t) = Inr r)
            (drop (nat i) tlds) (brs @ rs')"
      unfolding split using ball rall by (rule list_all2_appendI)
    moreover have "batches env name tlds c delay i rs evs = Some (Inr (rs @ (brs @ rs'), evs'))"
      using batches_step [OF True brs] rec by simp
    ultimately show ?thesis by blast
  qed
qed

lemma base_name_resolves:
  "\<exists>base. (if CHR ''.'' \<in> set domainName
            then (case parseDomain domainName of Inl e \<Rightarrow> Inl e | Inr (name, _) \<Rightarrow> Inr name)
            else Inr domainName) = Inr base \<and>
           (if CHR ''.'' \<in> set domainName then \<exists>t. parseDomain domainName = Inr (base, t)
            else base = domainName)"
proof (cases "CHR ''.'' \<in> set domainName")
  case True
  from parseDomain_dot [OF True] obtain name t where "parseDomain domainName = Inr (name, t)"
    by blast
  with True show ?thesis by simp
next
  case False
  then show ?thesis by simp
qed

text \<open>
  C7. With a window size above zero (the default is 3), \<open>checkAlternativeTlds\<close> returns, and
  its results are the results of \<open>checkDomain\<close> for \<open>name.tld\<close>, one for each requested TLD
  and in the order of the request; the \<open>domain\<close> of each is \<open>name.tld\<close> trimmed and in lower
  case. The name is the argument itself, or its part before the last dot when it has one.
\<close>

theorem one_result_per_tld_in_order:
  assumes "0 < (case concurrency options of None \<Rightarrow> DEFAULT_CONCURRENCY | Some c \<Rightarrow> c)"
  shows "\<exists>res evs.
           checkAlternativeTlds env domainName tlds options = Some (Inr (res, evs)) \<and>
           (if CHR ''.'' \<in> set domainName
            then \<exists>t. parseDomain domainName = Inr (originalDomain res, t)
            else originalDomain res = domainName) \<and>
           length (results res) = length tlds \<and>
           list_all2
             (\<lambda>t r. checkDomain env (originalDomain res @ ''.'' @ t) = Inr r \<and>
                    domain r = trim (toLowerCase (originalDomain res @ ''.'' @ t)))
             tlds (results res)"
proof -
  let ?c = "case concurrency options of None \<Rightarrow> DEFAULT_CONCURRENCY | Some c \<Rightarrow> c"
  let ?d = "case batchDelay options of None \<Rightarrow> BATCH_DELAY_MS | Some d \<Rightarrow> d"
  from base_name_resolves [of domainName] obtain base
    where base: "(if CHR ''.'' \<in> set domainName
            then (case parseDomain domainName of Inl e \<Rightarrow> Inl e | Inr (name, _) \<Rightarrow> Inr name)
            else Inr domainName) = Inr base"
      and orig: "if CHR ''.'' \<in> set domainName then \<exists>t. parseDomain domainName = Inr (base, t)
            else base = domainName"
    by blast
  have zero: "(0::int) \<le> 0" by simp
  from batches_returns [OF assms zero, of env base tlds ?d "[]" "[]"] obtain rs evs
    where run: "batches env base tlds ?c ?d 0 [] [] = Some (Inr (rs, evs))"
      and all: "list_all2 (\<lambda>t r. checkDomain env (base @ ''.'' @ t) = Inr r) tlds rs"
    by auto
  have dom: "list_all2
             (\<lambda>t r. checkDomain env (base @ ''.'' @ t) = Inr r \<and>
                    domain r = trim (toLowerCase (base @ ''.'' @ t))) tlds rs"
    using all
  proof (rule list_all2_mono)
    fix t r
    assume "checkDomain env (base @ ''.'' @ t) = Inr r"
    with checkDomain_dotted [of env base t]
    show "checkDomain env (base @ ''.'' @ t) = Inr r \<and>
          domain r = trim (toLowerCase (base @ ''.'' @ t))"
      by auto
  qed
  have len: "length rs = length tlds"
    using all by (simp add: list_all2_lengthD)
  have "checkAlternativeTlds env domainName tlds options =
          Some (Inr (\<lparr>originalDomain = base, results = rs\<rparr>, evs))"
    unfolding checkAlternativeTlds_def Let_def base using run by simp
  with orig dom len show ?thesis
    by (intro exI [of _ "\<lparr>originalDomain = base, results = rs\<rparr>"] exI [of _ evs]) simp
qed

theorem one_result_per_tld_in_order_witness:
  "0 < DEFAULT_CONCURRENCY \<and>
   (\<exists>res evs.
      checkAlternativeTlds
        (const_probes (DnsRejected (Some ''ENOTFOUND'') ''queryA ENOTFOUND'')
                      (WhoisData ''No match''))
        ''foo'' [''com'', ''net'', ''org''] no_options = Some (Inr (res, evs)) \<and>
      originalDomain res = ''foo'' \<and>
      map domain (results res) = [''foo.com'', ''foo.net'', ''foo.org''])"
proof -
  let ?env = "const_probes (DnsRejected (Some ''ENOTFOUND'') ''queryA ENOTFOUND'')
                      (WhoisData ''No match'')"
  have pos: "0 < (case concurrency no_options of None \<Rightarrow> DEFAULT_CONCURRENCY | Some c \<Rightarrow> c)"
    by (simp add: no_options_def DEFAULT_CONCURRENCY_def)
  have n1: "trim (toLowerCase ''foo.com'') = ''foo.com''"
    and n2: "trim (toLowerCase ''foo.net'') = ''foo.net''"
    and n3: "trim (toLowerCase ''foo.org'') = ''foo.org''"
    by code_simp+
  from one_result_per_tld_in_order [OF pos, of ?env "''foo''" "[''com'', ''net'', ''org'']"]
  obtain res evs
    where ret: "checkAlternativeTlds ?env ''foo'' [''com'', ''net'', ''org''] no_options =
                  Some (Inr (res, evs))"
      and orig: "originalDomain res = ''foo''"
      and all: "list_all2
             (\<lambda>t r. checkDomain ?env (originalDomain res @ ''.'' @ t) = Inr r \<and>
                    domain r = trim (toLowerCase (originalDomain res @ ''.'' @ t)))
             [''com'', ''net'', ''org''] (results res)"
    by auto
  from all orig n1 n2 n3 have "map domain (results res) = [''foo.com'', ''foo.net'', ''foo.org'']"
    by (auto simp add: list_all2_Cons1)
  with ret orig show ?thesis
    by (auto simp add: DEFAULT_CONCURRENCY_def)
qed

lemma seven_elements:
  assumes "length xs = 7"
  obtains a b c d e f g where "xs = [a, b, c, d, e, f, g]"
proof -
  from assms have "\<exists>a b c d e f g. xs = [a, b, c, d, e, f, g]"
    by (simp add: eval_nat_numeral length_Suc_conv) blast
  then show ?thesis using that by blast
qed

section \<open>Facts about the TypeScript listing\<close>

lemma checkDns_ts_exists: "dns_exists (checkDns_ts env q) = dns_exists (checkDns env q)"
  by (simp add: checkDns_ts_def checkDns_def split: dns_outcome.splits)

lemma checkDns_ts_truthy:
  "truthy (dns_error (checkDns_ts env q)) = truthy (dns_error (checkDns env q))"
  by (simp add: checkDns_ts_def checkDns_def truthy_def split: dns_outcome.splits)

text \<open>
  The listing and the compiled module give the same verdict on the same probe outcomes;
  only the text of \<open>error\<close> can differ, when the DNS rejection carries the timer's message.
\<close>

lemma checkDomain_ts_agrees:
  "rel_sum (=)
     (\<lambda>a b. a\<lparr>error := error b\<rparr> = b \<and> (error a = None \<longleftrightarrow> error b = None))
     (checkDomain_ts env d) (checkDomain env d)"
proof (cases "parseDomain d")
  case (Inl e)
  then show ?thesis by (simp add: checkDomain_ts_def checkDomain_def)
next
  case (Inr p)
  obtain name t where p: "p = (name, t)" by (cases p)
  show ?thesis
    using Inr p
    by (simp add: checkDomain_ts_def checkDomain_def Let_def checkDns_ts_exists checkDns_ts_truthy)
qed

lemma checkDomain_ts_dotted:
  "\<exists>r. checkDomain_ts env (name @ ''.'' @ t) = Inr r \<and>
       domain r = trim (toLowerCase (name @ ''.'' @ t))"
proof -
  from checkDomain_dotted [of env name t] obtain b
    where b: "checkDomain env (name @ ''.'' @ t) = Inr b"
      and d: "domain b = trim (toLowerCase (name @ ''.'' @ t))"
    by blast
  from checkDomain_ts_agrees [of env "name @ ''.'' @ t"] b obtain a
    where a: "checkDomain_ts env (name @ ''.'' @ t) = Inr a" and ab: "a\<lparr>error := error b\<rparr> = b"
    by (cases "checkDomain_ts env (name @ ''.'' @ t)") auto
  from ab have "domain a = domain b"
    by (cases a, cases b) simp
  with a d show ?thesis by simp
qed

lemma promise_all_checkDomain_ts:
  "\<exists>rs. promise_all (map (\<lambda>t. checkDomain_ts env (name @ ''.'' @ t)) ts) = Inr rs \<and>
        list_all2 (\<lambda>t r. checkDomain_ts env (name @ ''.'' @ t) = Inr r) ts rs"
proof (induction ts)
  case Nil
  show ?case by simp
next
  case (Cons t ts)
  from checkDomain_ts_dotted [of env name t] obtain r
    where r: "checkDomain_ts env (name @ ''.'' @ t) = Inr r" by blast
  from Cons obtain rs
    where rs: "promise_all (map (\<lambda>t. checkDomain_ts env (name @ ''.'' @ t)) ts) = Inr rs"
      and all: "list_all2 (\<lambda>t r. checkDomain_ts env (name @ ''.'' @ t) = Inr r) ts rs"
    by blast
  from r rs all show ?case by simp
qed

lemma batches_ts_step:
  assumes "i < int (length tlds)"
    and "promise_all (map (\<lambda>t. checkDomain_ts env (name @ ''.'' @ t)) (slice tlds i (i + c))) = Inr brs"
  shows "batches_ts env name tlds c i rs evs =
         batches_ts env name tlds c (i + c) (rs @ brs)
           (evs @ [Window (map (\<lambda>t. name @ ''.'' @ t) (slice tlds i (i + c)))])"
  using assms by (subst batches_ts.simps) (simp add: Let_def)

lemma batches_ts_done:
  assumes "\<not> i < int (length tlds)"
  shows "batches_ts env name tlds c i rs evs = Some (Inr (rs, evs))"
  using assms by (subst batches_ts.simps) simp

lemma originalDomain_plain:
  assumes "CHR ''.'' \<notin> set domainName"
  shows "checkAlternativeTlds env domainName tlds options = Some (Inr (res, evs)) \<Longrightarrow>
           originalDomain res = domainName"
    and "checkAlternativeTlds_ts env domainName tlds c = Some (Inr (res, evs)) \<Longrightarrow>
           originalDomain res = domainName"
  using assms
  by (auto simp add: checkAlternativeTlds_def checkAlternativeTlds_ts_def Let_def
      split: option.splits sum.splits)

lemma three_three_one:
  assumes "length w1 = 3" and "length w2 = 3" and "length w3 = 1"
    and "w1 @ w2 @ w3 = [a, b, c, d, e, f, g]"
  shows "w1 = [a, b, c] \<and> w2 = [d, e, f] \<and> w3 = [g]"
proof -
  from assms(1) obtain x1 x2 x3 where w1: "w1 = [x1, x2, x3]"
    by (auto simp add: eval_nat_numeral length_Suc_conv)
  from assms(2) obtain y1 y2 y3 where w2: "w2 = [y1, y2, y3]"
    by (auto simp add: eval_nat_numeral length_Suc_conv)
  from assms(3) obtain z where w3: "w3 = [z]"
    by (auto simp add: length_Suc_conv)
  from assms(4) show ?thesis unfolding w1 w2 w3 by simp
qed

text \<open>
  C5. Seven TLDs checked with a window of three (given, or by default) run as three
  windows of 3, 3 and 1 domains, in the order of the list, with the pause after the first
  window and after the second and none after the third: the events of the call are window,
  pause, window, pause, window.
\<close>

theorem seven_tlds_three_windows:
  assumes "length tlds = 7"
    and "concurrency options = Some 3 \<or> concurrency options = None"
  shows "\<exists>res w1 w2 w3 delay.
           checkAlternativeTlds env domainName tlds options =
             Some (Inr (res, [Window w1, Sleep delay, Window w2, Sleep delay, Window w3])) \<and>
           length w1 = 3 \<and> length w2 = 3 \<and> length w3 = 1 \<and>
           w1 @ w2 @ w3 = map (\<lambda>t. originalDomain res @ ''.'' @ t) tlds \<and>
           delay = (case batchDelay options of None \<Rightarrow> BATCH_DELAY_MS | Some d \<Rightarrow> d)"
proof -
  let ?d = "case batchDelay options of None \<Rightarrow> BATCH_DELAY_MS | Some d \<Rightarrow> d"
  have c: "(case concurrency options of None \<Rightarrow> DEFAULT_CONCURRENCY | Some c \<Rightarrow> c) = 3"
    using assms(2) by (auto simp add: DEFAULT_CONCURRENCY_def)
  from assms(1) obtain t1 t2 t3 t4 t5 t6 t7 where tlds: "tlds = [t1, t2, t3, t4, t5, t6, t7]"
    by (rule seven_elements)
  from base_name_resolves [of domainName] obtain base
    where base: "(if CHR ''.'' \<in> set domainName
            then (case parseDomain domainName of Inl e \<Rightarrow> Inl e | Inr (name, _) \<Rightarrow> Inr name)
            else Inr domainName) = Inr base"
    by blast
  let ?mk = "\<lambda>t. base @ ''.'' @ t"
  have s1: "slice tlds 0 (0 + 3) = [t1, t2, t3]"
    and s2: "slice tlds 3 (3 + 3) = [t4, t5, t6]"
    and s3: "slice tlds 6 (6 + 3) = [t7]"
    unfolding tlds by (simp_all add: slice_def)
  from promise_all_checkDomain [of env base "[t1, t2, t3]"] obtain b1
    where b1: "promise_all (map (\<lambda>t. checkDomain env (base @ ''.'' @ t)) [t1, t2, t3]) = Inr b1"
    by blast
  from promise_all_checkDomain [of env base "[t4, t5, t6]"] obtain b2
    where b2: "promise_all (map (\<lambda>t. checkDomain env (base @ ''.'' @ t)) [t4, t5, t6]) = Inr b2"
    by blast
  from promise_all_checkDomain [of env base "[t7]"] obtain b3
    where b3: "promise_all (map (\<lambda>t. checkDomain env (base @ ''.'' @ t)) [t7]) = Inr b3"
    by blast
  have i0: "0 < int (length tlds)" and i3: "3 < int (length tlds)" and i6: "6 < int (length tlds)"
    and i9: "\<not> 9 < int (length tlds)"
    unfolding tlds by simp_all
  have "batches env base tlds 3 ?d 0 [] [] =
        batches env base tlds 3 ?d 3 b1 [Window (map ?mk [t1, t2, t3]), Sleep ?d]"
    using batches_step [OF i0, of env base 3 b1 ?d "[]" "[]"] b1 i3 unfolding s1 by simp
  also have "\<dots> = batches env base tlds 3 ?d 6 (b1 @ b2)
        [Window (map ?mk [t1, t2, t3]), Sleep ?d, Window (map ?mk [t4, t5, t6]), Sleep ?d]"
    using batches_step [OF i3, of env base 3 b2 ?d b1] b2 i6 unfolding s2 by simp
  also have "\<dots> = batches env base tlds 3 ?d 9 (b1 @ b2 @ b3)
        [Window (map ?mk [t1, t2, t3]), Sleep ?d, Window (map ?mk [t4, t5, t6]), Sleep ?d,
         Window (map ?mk [t7])]"
    using batches_step [OF i6, of env base 3 b3 ?d "b1 @ b2"] b3 i9 unfolding s3 by simp
  also have "\<dots> = Some (Inr (b1 @ b2 @ b3,
        [Window (map ?mk [t1, t2, t3]), Sleep ?d, Window (map ?mk [t4, t5, t6]), Sleep ?d,
         Window (map ?mk [t7])]))"
    using i9 by (rule batches_done)
  finally have "checkAlternativeTlds env domainName tlds options =
      Some (Inr (\<lparr>originalDomain = base, results = b1 @ b2 @ b3\<rparr>,
        [Window (map ?mk [t1, t2, t3]), Sleep ?d, Window (map ?mk [t4, t5, t6]), Sleep ?d,
         Window (map ?mk [t7])]))"
    unfolding checkAlternativeTlds_def Let_def base c by simp
  then show ?thesis
    unfolding tlds
    by (intro exI [of _ "\<lparr>originalDomain = base, results = b1 @ b2 @ b3\<rparr>"]
        exI [of _ "map ?mk [t1, t2, t3]"] exI [of _ "map ?mk [t4, t5, t6]"]
        exI [of _ "map ?mk [t7]"] exI [of _ ?d]) simp
qed

theorem seven_tlds_three_windows_witness:
  "length [''com'', ''net'', ''org'', ''io'', ''co'', ''dev'', ''app''] = 7 \<and>
   events_of
     (checkAlternativeTlds
        (const_probes (DnsRejected (Some ''ENOTFOUND'') ''queryA ENOTFOUND'')
                      (WhoisData ''No match''))
        ''foo'' [''com'', ''net'', ''org'', ''io'', ''co'', ''dev'', ''app'']
        \<lparr>concurrency = Some 3, batchDelay = None\<rparr>) =
     Some [Window [''foo.com'', ''foo.net'', ''foo.org''], Sleep 1500,
           Window [''foo.io'', ''foo.co'', ''foo.dev''], Sleep 1500,
           Window [''foo.app'']]"
proof -
  let ?env = "const_probes (DnsRejected (Some ''ENOTFOUND'') ''queryA ENOTFOUND'')
                          (WhoisData ''No match'')"
  let ?tlds = "[''com'', ''net'', ''org'', ''io'', ''co'', ''dev'', ''app'']"
  let ?opts = "\<lparr>concurrency = Some 3, batchDelay = None\<rparr>"
  have len: "length ?tlds = 7" by simp
  have con: "concurrency ?opts = Some 3 \<or> concurrency ?opts = None" by simp
  have plain: "CHR ''.'' \<notin> set ''foo''" by simp
  from seven_tlds_three_windows [OF len con, of ?env "''foo''"]
  obtain res w1 w2 w3 delay
    where ret: "checkAlternativeTlds ?env ''foo'' ?tlds ?opts =
             Some (Inr (res, [Window w1, Sleep delay, Window w2, Sleep delay, Window w3]))"
      and l: "length w1 = 3" "length w2 = 3" "length w3 = 1"
      and w: "w1 @ w2 @ w3 = map (\<lambda>t. originalDomain res @ ''.'' @ t) ?tlds"
      and d: "delay = (case batchDelay ?opts of None \<Rightarrow> BATCH_DELAY_MS | Some d \<Rightarrow> d)"
    by blast
  from originalDomain_plain(1) [OF plain ret] have orig: "originalDomain res = ''foo''" .
  from w orig have "w1 @ w2 @ w3 =
      [''foo.com'', ''foo.net'', ''foo.org'', ''foo.io'', ''foo.co'', ''foo.dev'', ''foo.app'']"
    by simp
  from three_three_one [OF l this] have ws: "w1 = [''foo.com'', ''foo.net'', ''foo.org'']"
    "w2 = [''foo.io'', ''foo.co'', ''foo.dev'']" "w3 = [''foo.app'']"
    by simp_all
  from d have "delay = 1500" by (simp add: BATCH_DELAY_MS_def)
  with ret ws show ?thesis
    by (simp add: events_of_def)
qed

text \<open>
  The TypeScript listing, the older copy of the batch loop, runs the same three windows and
  has no pause between them.
\<close>

lemma listing_seven_tlds_events:
  assumes "length tlds = 7"
  shows "\<exists>res w1 w2 w3.
           checkAlternativeTlds_ts env domainName tlds (Some 3) =
             Some (Inr (res, [Window w1, Window w2, Window w3])) \<and>
           length w1 = 3 \<and> length w2 = 3 \<and> length w3 = 1 \<and>
           w1 @ w2 @ w3 = map (\<lambda>t. originalDomain res @ ''.'' @ t) tlds"
proof -
  from assms obtain t1 t2 t3 t4 t5 t6 t7 where tlds: "tlds = [t1, t2, t3, t4, t5, t6, t7]"
    by (rule seven_elements)
  from base_name_resolves [of domainName] obtain base
    where base: "(if CHR ''.'' \<in> set domainName
            then (case parseDomain domainName of Inl e \<Rightarrow> Inl e | Inr (name, _) \<Rightarrow> Inr name)
            else Inr domainName) = Inr base"
    by blast
  let ?mk = "\<lambda>t. base @ ''.'' @ t"
  have s1: "slice tlds 0 (0 + 3) = [t1, t2, t3]"
    and s2: "slice tlds 3 (3 + 3) = [t4, t5, t6]"
    and s3: "slice tlds 6 (6 + 3) = [t7]"
    unfolding tlds by (simp_all add: slice_def)
  from promise_all_checkDomain_ts [of env base "[t1, t2, t3]"] obtain b1
    where b1: "promise_all (map (\<lambda>t. checkDomain_ts env (base @ ''.'' @ t)) [t1, t2, t3]) = Inr b1"
    by blast
  from promise_all_checkDomain_ts [of env base "[t4, t5, t6]"] obtain b2
    where b2: "promise_all (map (\<lambda>t. checkDomain_ts env (base @ ''.'' @ t)) [t4, t5, t6]) = Inr b2"
    by blast
  from promise_all_checkDomain_ts [of env base "[t7]"] obtain b3
    where b3: "promise_all (map (\<lambda>t. checkDomain_ts env (base @ ''.'' @ t)) [t7]) = Inr b3"
    by blast
  have i0: "0 < int (length tlds)" and i3: "3 < int (length tlds)" and i6: "6 < int (length tlds)"
    and i9: "\<not> 9 < int (length tlds)"
    unfolding tlds by simp_all
  have "batches_ts env base tlds 3 0 [] [] =
        batches_ts env base tlds 3 3 b1 [Window (map ?mk [t1, t2, t3])]"
    using batches_ts_step [OF i0, of env base 3 b1 "[]" "[]"] b1 unfolding s1 by simp
  also have "\<dots> = batches_ts env base tlds 3 6 (b1 @ b2)
        [Window (map ?mk [t1, t2, t3]), Window (map ?mk [t4, t5, t6])]"
    using batches_ts_step [OF i3, of env base 3 b2 b1] b2 unfolding s2 by simp
  also have "\<dots> = batches_ts env base tlds 3 9 (b1 @ b2 @ b3)
        [Window (map ?mk [t1, t2, t3]), Window (map ?mk [t4, t5, t6]), Window (map ?mk [t7])]"
    using batches_ts_step [OF i6, of env base 3 b3 "b1 @ b2"] b3 unfolding s3 by simp
  also have "\<dots> = Some (Inr (b1 @ b2 @ b3,
        [Window (map ?mk [t1, t2, t3]), Window (map ?mk [t4, t5, t6]), Window (map ?mk [t7])]))"
    using i9 by (rule batches_ts_done)
  finally have "checkAlternativeTlds_ts env domainName tlds (Some 3) =
      Some (Inr (\<lparr>originalDomain = base, results = b1 @ b2 @ b3\<rparr>,
        [Window (map ?mk [t1, t2, t3]), Window (map ?mk [t4, t5, t6]), Window (map ?mk [t7])]))"
    unfolding checkAlternativeTlds_ts_def Let_def base by simp
  then show ?thesis
    unfolding tlds
    by (intro exI [of _ "\<lparr>originalDomain = base, results = b1 @ b2 @ b3\<rparr>"]
        exI [of _ "map ?mk [t1, t2, t3]"] exI [of _ "map ?mk [t4, t5, t6]"]
        exI [of _ "map ?mk [t7]"]) simp
qed

lemma listing_never_pauses:
  "events_of
     (checkAlternativeTlds_ts
        (const_probes (DnsRejected (Some ''ENOTFOUND'') ''queryA ENOTFOUND'')
                      (WhoisData ''No match''))
        ''foo'' [''com'', ''net'', ''org'', ''io'', ''co'', ''dev'', ''app''] (Some 3)) =
   Some [Window [''foo.com'', ''foo.net'', ''foo.org''],
         Window [''foo.io'', ''foo.co'', ''foo.dev''],
         Window [''foo.app'']]"
proof -
  let ?env = "const_probes (DnsRejected (Some ''ENOTFOUND'') ''queryA ENOTFOUND'')
                          (WhoisData ''No match'')"
  let ?tlds = "[''com'', ''net'', ''org'', ''io'', ''co'', ''dev'', ''app'']"
  have len: "length ?tlds = 7" by simp
  have plain: "CHR ''.'' \<notin> set ''foo''" by simp
  from listing_seven_tlds_events [OF len, of ?env "''foo''"]
  obtain res w1 w2 w3
    where ret: "checkAlternativeTlds_ts ?env ''foo'' ?tlds (Some 3) =
             Some (Inr (res, [Window w1, Window w2, Window w3]))"
      and l: "length w1 = 3" "length w2 = 3" "length w3 = 1"
      and w: "w1 @ w2 @ w3 = map (\<lambda>t. originalDomain res @ ''.'' @ t) ?tlds"
    by blast
  from originalDomain_plain(2) [OF plain ret] have orig: "originalDomain res = ''foo''" .
  from w orig have "w1 @ w2 @ w3 =
      [''foo.com'', ''foo.net'', ''foo.org'', ''foo.io'', ''foo.co'', ''foo.dev'', ''foo.app'']"
    by simp
  from three_three_one [OF l this] ret show ?thesis
    by (simp add: events_of_def)
qed

section \<open>Further facts about the batch loop and the verdict\<close>

text \<open>
  The window size must be above zero: with a window of zero or less the loop variable never
  reaches the length of a list that is not empty, and the call does not return.
\<close>

lemma batches_stuck:
  assumes "batches env name tlds c delay i rs evs = Some y"
  shows "\<not> (c \<le> 0 \<and> i < int (length tlds))"
proof (induction env name tlds c delay i rs evs y rule: batches.raw_induct)
  case (1 loop env name tlds c delay i rs evs y)
  show ?case
  proof
    assume stuck: "c \<le> 0 \<and> i < int (length tlds)"
    let ?batch = "slice tlds i (i + c)"
    from promise_all_checkDomain [of env name ?batch] obtain brs
      where brs: "promise_all (map (\<lambda>t. checkDomain env (name @ ''.'' @ t)) ?batch) = Inr brs"
      by blast
    from stuck have again: "i + c < int (length tlds)" by simp
    from "1.hyps" stuck brs again
    have "loop env name tlds c delay (i + c) (rs @ brs)
            (evs @ [Window (map (\<lambda>t. name @ ''.'' @ t) ?batch), Sleep delay]) = Some y"
      by (simp add: Let_def)
    from "1.IH" [OF this] stuck again show False by simp
  qed
qed (rule assms)

lemma window_of_zero_never_returns:
  assumes "tlds \<noteq> []"
  shows "checkAlternativeTlds env domainName tlds \<lparr>concurrency = Some 0, batchDelay = delay\<rparr> = None"
proof -
  from base_name_resolves [of domainName] obtain base
    where base: "(if CHR ''.'' \<in> set domainName
            then (case parseDomain domainName of Inl e \<Rightarrow> Inl e | Inr (name, _) \<Rightarrow> Inr name)
            else Inr domainName) = Inr base"
    by blast
  let ?d = "case delay of None \<Rightarrow> BATCH_DELAY_MS | Some d \<Rightarrow> d"
  have "batches env base tlds 0 ?d 0 [] [] = None"
  proof (cases "batches env base tlds 0 ?d 0 [] []")
    case None
    then show ?thesis .
  next
    case (Some y)
    from assms have "(0::int) \<le> 0 \<and> 0 < int (length tlds)" by simp
    with batches_stuck [OF Some] show ?thesis by blast
  qed
  then show ?thesis
    unfolding checkAlternativeTlds_def Let_def base by simp
qed

lemma batches_ts_returns:
  assumes "0 < c" and "0 \<le> i"
  shows "\<exists>rs' evs'. batches_ts env name tlds c i rs evs = Some (Inr (rs @ rs', evs')) \<and>
           list_all2 (\<lambda>t r. checkDomain_ts env (name @ ''.'' @ t) = Inr r) (drop (nat i) tlds) rs'"
  using assms(2)
proof (induction "length tlds - nat i" arbitrary: i rs evs rule: less_induct)
  case less
  show ?case
  proof (cases "i < int (length tlds)")
    case False
    then have "drop (nat i) tlds = []" by simp
    with batches_ts_done [OF False] show ?thesis by simp
  next
    case True
    let ?batch = "slice tlds i (i + c)"
    from promise_all_checkDomain_ts [of env name ?batch] obtain brs
      where brs: "promise_all (map (\<lambda>t. checkDomain_ts env (name @ ''.'' @ t)) ?batch) = Inr brs"
        and ball: "list_all2 (\<lambda>t r. checkDomain_ts env (name @ ''.'' @ t) = Inr r) ?batch brs"
      by blast
    have win: "?batch = take (nat c) (drop (nat i) tlds)"
      using less.prems True assms(1) by (rule slice_window)
    have smaller: "length tlds - nat (i + c) < length tlds - nat i"
      using True less.prems assms(1) by linarith
    have nonneg: "0 \<le> i + c"
      using less.prems assms(1) by simp
    from less.hyps [OF smaller nonneg] obtain rs' evs'
      where rec: "batches_ts env name tlds c (i + c) (rs @ brs)
                    (evs @ [Window (map (\<lambda>t. name @ ''.'' @ t) ?batch)]) =
                  Some (Inr ((rs @ brs) @ rs', evs'))"
        and rall: "list_all2 (\<lambda>t r. checkDomain_ts env (name @ ''.'' @ t) = Inr r)
                     (drop (nat (i + c)) tlds) rs'"
      by blast
    have "nat (i + c) = nat c + nat i"
      using less.prems assms(1) by (simp add: nat_add_distrib)
    then have "drop (nat (i + c)) tlds = drop (nat c) (drop (nat i) tlds)"
      by (simp only: drop_drop)
    then have split: "drop (nat i) tlds = ?batch @ drop (nat (i + c)) tlds"
      unfolding win by (simp only: append_take_drop_id)
    have "list_all2 (\<lambda>t r. checkDomain_ts env (name @ ''.'' @ t) = Inr r)
            (drop (nat i) tlds) (brs @ rs')"
      unfolding split using ball rall by (rule list_all2_appendI)
    moreover have "batches_ts env name tlds c i rs evs = Some (Inr (rs @ (brs @ rs'), evs'))"
      using batches_ts_step [OF True brs] rec by simp
    ultimately show ?thesis by blast
  qed
qed

text \<open>
  The listing, too, returns one result for each requested TLD, in the order of the request,
  for every window size above zero (its default is five).
\<close>

lemma listing_one_result_per_tld:
  assumes "0 < (case c of None \<Rightarrow> 5 | Some n \<Rightarrow> n)"
  shows "\<exists>res evs.
           checkAlternativeTlds_ts env domainName tlds c = Some (Inr (res, evs)) \<and>
           list_all2
             (\<lambda>t r. checkDomain_ts env (originalDomain res @ ''.'' @ t) = Inr r \<and>
                    domain r = trim (toLowerCase (originalDomain res @ ''.'' @ t)))
             tlds (results res)"
proof -
  let ?c = "case c of None \<Rightarrow> 5 | Some n \<Rightarrow> n"
  from base_name_resolves [of domainName] obtain base
    where base: "(if CHR ''.'' \<in> set domainName
            then (case parseDomain domainName of Inl e \<Rightarrow> Inl e | Inr (name, _) \<Rightarrow> Inr name)
            else Inr domainName) = Inr base"
    by blast
  have zero: "(0::int) \<le> 0" by simp
  from batches_ts_returns [OF assms zero, of env base tlds "[]" "[]"] obtain rs evs
    where run: "batches_ts env base tlds ?c 0 [] [] = Some (Inr (rs, evs))"
      and all: "list_all2 (\<lambda>t r. checkDomain_ts env (base @ ''.'' @ t) = Inr r) tlds rs"
    by auto
  have dom: "list_all2
             (\<lambda>t r. checkDomain_ts env (base @ ''.'' @ t) = Inr r \<and>
                    domain r = trim (toLowerCase (base @ ''.'' @ t))) tlds rs"
    using all
  proof (rule list_all2_mono)
    fix t r
    assume "checkDomain_ts env (base @ ''.'' @ t) = Inr r"
    with checkDomain_ts_dotted [of env base t]
    show "checkDomain_ts env (base @ ''.'' @ t) = Inr r \<and>
          domain r = trim (toLowerCase (base @ ''.'' @ t))"
      by auto
  qed
  have "checkAlternativeTlds_ts env domainName tlds c =
          Some (Inr (\<lparr>originalDomain = base, results = rs\<rparr>, evs))"
    unfolding checkAlternativeTlds_ts_def Let_def base using run by simp
  with dom show ?thesis
    by (intro exI [of _ "\<lparr>originalDomain = base, results = rs\<rparr>"] exI [of _ evs]) simp
qed

end
